theory Spec2Isabelle
  imports Main "HOL-Library.Word"
begin

unbundle bit_operations_syntax

section \<open>Entropy source: sampling the ring oscillator\<close>

text \<open>
  The last part of \<^verbatim>\<open>src/omv/ports/rp2/main.c\<close> extracts random bytes from the
  ring oscillator of the RP2040:

  \<^verbatim>\<open>
  #define POLY    (0xD5)

  uint8_t rosc_random_u8(size_t cycles) {
      static uint8_t r;
      for (size_t i = 0; i < cycles; ++i) {
          r = ((r << 1) | rosc_hw->randombit) ^ (r & 0x80 ? POLY : 0);
          mp_hal_delay_us_fast(1);
      }
      return r;
  }
  \<close>

  The function touches three things outside its frame: the static byte \<open>r\<close>, which
  lives as long as the program; the memory-mapped register \<open>rosc_hw->randombit\<close>, a
  32-bit read whose value is chosen by the hardware at every read; and the busy-wait
  \<open>mp_hal_delay_us_fast\<close>. The record below carries the static byte, the values the
  register will return (indexed by the number of reads made so far), that number of
  reads, and the log of hardware accesses in program order. The counters \<open>i\<close> and
  \<open>cycles\<close> are \<open>size_t\<close> values; \<open>i\<close> stays below \<open>cycles\<close>, so it never wraps and both are
  natural numbers here.
\<close>

datatype hw_event = ReadRandomBit | DelayUsFast nat

record rosc =
  static_r :: "8 word"
  randombit :: "nat \<Rightarrow> 32 word"
  reads :: nat
  trace :: "hw_event list"

definition POLY :: "32 word" where
  "POLY = 0xD5"

text \<open>
  The assignment inside the loop. In C the operand \<open>r\<close> is promoted to \<open>int\<close>, the
  register read is an unsigned 32-bit value, so the right-hand side is computed on 32 bits
  and the store to the \<open>uint8_t\<close> keeps its low byte.
\<close>

definition rosc_mix :: "8 word \<Rightarrow> 32 word \<Rightarrow> 8 word" where
  "rosc_mix r b =
     ucast ((push_bit 1 (ucast r :: 32 word) OR b) XOR (if r AND 0x80 \<noteq> 0 then POLY else 0))"

definition rosc_sample :: "rosc \<Rightarrow> rosc" where
  "rosc_sample st = st\<lparr>static_r := rosc_mix (static_r st) (randombit st (reads st)),
                        reads := Suc (reads st),
                        trace := trace st @ [ReadRandomBit]\<rparr>"

definition mp_hal_delay_us_fast :: "nat \<Rightarrow> rosc \<Rightarrow> rosc" where
  "mp_hal_delay_us_fast us st = st\<lparr>trace := trace st @ [DelayUsFast us]\<rparr>"

text \<open>The two statements of the loop body, and the \<open>for\<close> loop with its counter.\<close>

definition rosc_body :: "rosc \<Rightarrow> rosc" where
  "rosc_body st = mp_hal_delay_us_fast 1 (rosc_sample st)"

function rosc_loop :: "nat \<Rightarrow> nat \<Rightarrow> rosc \<Rightarrow> rosc" where
  "rosc_loop i cycles st =
     (if i < cycles then rosc_loop (Suc i) cycles (rosc_body st) else st)"
  by pat_completeness auto
termination
  by (relation "measure (\<lambda>(i, cycles, st). cycles - i)") auto

declare rosc_loop.simps [simp del]

definition rosc_random_u8 :: "nat \<Rightarrow> rosc \<Rightarrow> 8 word \<times> rosc" where
  "rosc_random_u8 cycles st = (let st' = rosc_loop 0 cycles st in (static_r st', st'))"

text \<open>
  A static object without initialiser starts at zero, so this is the state at power-on
  for an oscillator that will deliver the samples \<open>osc\<close>.
\<close>

definition rosc_power_on :: "(nat \<Rightarrow> 32 word) \<Rightarrow> rosc" where
  "rosc_power_on osc = \<lparr>static_r = 0, randombit = osc, reads = 0, trace = []\<rparr>"

text \<open>A stub oscillator whose register always reads 1.\<close>

fun stuck_at_one :: "nat \<Rightarrow> 32 word" where
  "stuck_at_one k = 1"

subsection \<open>The mixing rule as the specification words it\<close>

text \<open>
  The specification describes an 8-bit register: shift left by one, put the sampled bit
  in the low position, and XOR with \<open>0xD5\<close> when the bit shifted out of the top was set.
  \<open>next_byte_spec\<close> iterates that rule over the sampled bits, from the entry value of
  the accumulator.
\<close>

definition spec_step :: "8 word \<Rightarrow> bool \<Rightarrow> 8 word" where
  "spec_step r b = (push_bit 1 r OR of_bool b) XOR (if bit r 7 then 0xD5 else 0)"

definition next_byte_spec :: "8 word \<Rightarrow> bool list \<Rightarrow> 8 word" where
  "next_byte_spec r bs = foldl spec_step r bs"

section \<open>The lifecycle of \<open>main\<close>: boot, soft-reset cycle, teardown\<close>

text \<open>
  \<open>main\<close> in \<^verbatim>\<open>src/omv/ports/rp2/main.c\<close> is one straight-line function with two
  labels, \<^verbatim>\<open>soft_reset\<close> and \<^verbatim>\<open>soft_reset_exit\<close>. Everything it does is a call into
  another module (the MicroPython runtime, the pico SDK, TinyUSB, the OpenMV drivers), so
  the model records the calls in program order in a log, and takes from an environment
  record the values those calls return and the way the guarded calls end (by returning,
  or by a non-local jump back to the \<^verbatim>\<open>nlr_push\<close> that guards them).

  Calls carry the name of the C function. The \<open>*_init\<close>/\<open>*_init0\<close> and \<open>*_deinit\<close> functions
  are \<open>Init\<close> and \<open>Deinit\<close> of a subsystem:

  \<^item> \<open>Runtime\<close>: \<^verbatim>\<open>mp_init\<close>, \<^verbatim>\<open>mp_deinit\<close>
  \<^item> \<open>Readline\<close>: \<^verbatim>\<open>readline_init0\<close>
  \<^item> \<open>MachinePin\<close>: \<^verbatim>\<open>machine_pin_init\<close>, \<^verbatim>\<open>machine_pin_deinit\<close>
  \<^item> \<open>Rp2Pio\<close>: \<^verbatim>\<open>rp2_pio_init\<close>, \<^verbatim>\<open>rp2_pio_deinit\<close>
  \<^item> \<open>Rp2Dma\<close>: \<^verbatim>\<open>rp2_dma_init\<close>, \<^verbatim>\<open>rp2_dma_deinit\<close>
  \<^item> \<open>MachineI2s\<close>: \<^verbatim>\<open>machine_i2s_init0\<close>
  \<^item> \<open>Bluetooth\<close>: \<^verbatim>\<open>mp_bluetooth_hci_init\<close>, \<^verbatim>\<open>mp_bluetooth_deinit\<close>
  \<^item> \<open>Network\<close>: \<^verbatim>\<open>mod_network_init\<close>, \<^verbatim>\<open>mod_network_deinit\<close>
  \<^item> \<open>Pendsv\<close>: \<^verbatim>\<open>pendsv_init\<close>
  \<^item> \<open>Usbdbg\<close>: \<^verbatim>\<open>usbdbg_init\<close>
  \<^item> \<open>FbAlloc\<close>: \<^verbatim>\<open>fb_alloc_init0\<close>
  \<^item> \<open>Framebuffer\<close>: \<^verbatim>\<open>framebuffer_init0\<close>
  \<^item> \<open>PyFir\<close>: \<^verbatim>\<open>py_fir_init0\<close>
  \<^item> \<open>Sensor\<close>: \<^verbatim>\<open>sensor_init\<close>, the only init whose result \<open>main\<close> looks at
  \<^item> \<open>Audio\<close>: \<^verbatim>\<open>py_audio_deinit\<close>
  \<^item> \<open>MachinePwm\<close>: \<^verbatim>\<open>machine_pwm_deinit_all\<close>
\<close>

datatype subsystem =
    Runtime | Readline | MachinePin | Rp2Pio | Rp2Dma | MachineI2s | Bluetooth | Network
  | Pendsv | Usbdbg | FbAlloc | Framebuffer | PyFir | Sensor | Audio | MachinePwm

datatype gpio_dir = GPIO_IN | GPIO_OUT

text \<open>
  \<open>Call\<close> is a call whose result, if any, is not used; \<open>CallRc\<close> and \<open>Query\<close> record
  the integer or boolean the call returned; \<open>InitRc\<close> is an init call with its status.
  \<open>IrqSetEnabled\<close> is \<^verbatim>\<open>irq_set_enabled(USBCTRL_IRQ, _)\<close>, \<open>ExecBootscript\<close> is
  \<^verbatim>\<open>mp_exec_bootscript\<close> with the name of the script, \<open>PyexecStr\<close> is
  \<^verbatim>\<open>pyexec_str(usbdbg_get_script(), true)\<close>, \<open>Repl True\<close> is \<^verbatim>\<open>pyexec_raw_repl\<close> and
  \<open>Repl False\<close> is \<^verbatim>\<open>pyexec_friendly_repl\<close>, \<open>PrintException\<close> is
  \<^verbatim>\<open>mp_obj_print_exception\<close>.
\<close>

datatype event =
    Call string
  | CallRc string int
  | Query string bool
  | Init subsystem
  | InitRc subsystem int
  | Deinit subsystem
  | Printf string
  | MpPrintf string
  | IrqSetEnabled bool
  | UsbdbgSetIrqEnabled bool
  | UsbdbgWaitForCommand nat
  | ExecBootscript string
  | PyexecStr
  | Repl bool
  | PrintException
  | GpioInit nat
  | GpioSetDir nat gpio_dir
  | GpioPut nat bool
  | SleepMs nat

text \<open>
  The preprocessor conditions of \<open>main\<close> and the two constants it takes from headers
  that are not part of the sources at hand (\<^verbatim>\<open>MP_ENODEV\<close> from \<^verbatim>\<open>py/mperrno.h\<close>,
  \<^verbatim>\<open>OMV_LED_PIN\<close> from the board configuration) are parameters of the model.
\<close>

record config =
  MICROPY_HW_ENABLE_UART_REPL :: bool
  NDEBUG :: bool
  MICROPY_PY_THREAD :: bool
  MICROPY_PY_BLUETOOTH :: bool
  MICROPY_PY_NETWORK :: bool
  MICROPY_PY_SENSOR :: bool
  MICROPY_PY_AUDIO :: bool
  MICROPY_VFS_FAT :: bool
  MICROPY_HW_USB_MSC :: bool
  MP_ENODEV :: int
  OMV_LED_PIN :: nat

text \<open>
  The state is the local variable \<open>first_soft_reset\<close> of \<open>main\<close>, the enable state of
  the debugger (IDE) interrupt, and the log of calls made so far.
\<close>

record state =
  first_soft_reset :: bool
  usbdbg_irq_enabled :: bool
  log :: "event list"

text \<open>
  What the collaborators answer during one soft-reset cycle. \<open>pyexec_str\<close> either returns
  (\<open>Completed\<close>, or \<open>EarlyExit\<close> when the script asked to stop; \<open>main\<close> ignores the value
  returned) or is left by a non-local jump to the enclosing \<^verbatim>\<open>nlr_push\<close> (\<open>Faulted\<close>).
  A round of the REPL loop returns a status or is left by such a jump, and so is the
  wait for the pending debugger command. \<open>repl_rounds\<close> lists the rounds for which
  \<^verbatim>\<open>usbdbg_script_ready()\<close> was false at the head of the loop, each with the value of
  \<^verbatim>\<open>pyexec_mode_kind == PYEXEC_MODE_RAW_REPL\<close> and the way the REPL ended.
\<close>

datatype script_outcome = Completed | EarlyExit | Faulted
datatype repl_result = ReplReturned int | ReplRaised
datatype wait_outcome = WaitReturned | WaitRaised

record cycle_env =
  sensor_rc :: int
  mount_rc :: int
  mkfs_rc :: int
  tusb_inited :: bool
  boot_interrupted :: bool
  main_stat :: int
  repl_rounds :: "(bool \<times> repl_result) list"
  script_ready :: bool
  script_result :: script_outcome
  busy :: bool
  wait_result :: wait_outcome

definition emit :: "event \<Rightarrow> state \<Rightarrow> state" where
  "emit e st = st\<lparr>log := log st @ [e]\<rparr>"

definition emits :: "event list \<Rightarrow> state \<Rightarrow> state" where
  "emits es st = st\<lparr>log := log st @ es\<rparr>"

text \<open>
  Modelled from the spec: \<^verbatim>\<open>usbdbg_set_irq_enabled\<close> is defined in the debugger module
  (\<^verbatim>\<open>usbdbg.c\<close>), which is not among the sources at hand. The specification's Debug
  Channel Gate has \<open>set_interrupt_enabled(bool)\<close>, the enable/disable of its own
  interrupt source: the call sets the enable state to its argument.
\<close>

definition usbdbg_set_irq_enabled :: "bool \<Rightarrow> state \<Rightarrow> state" where
  "usbdbg_set_irq_enabled en st = emit (UsbdbgSetIrqEnabled en) (st\<lparr>usbdbg_irq_enabled := en\<rparr>)"

text \<open>The state before \<open>main\<close> runs: nothing logged, the interrupt not enabled.\<close>

definition power_on :: state where
  "power_on = \<lparr>first_soft_reset = False, usbdbg_irq_enabled = False, log = []\<rparr>"

text \<open>
  Lines 107 to 145, executed once: \<^verbatim>\<open>bool first_soft_reset = true;\<close>, the console,
  threads, the RTC and the board id.
\<close>

definition boot :: "config \<Rightarrow> state \<Rightarrow> state" where
  "boot cfg st =
     emits ((if MICROPY_HW_ENABLE_UART_REPL cfg
             then [Call ''setup_default_uart'', Call ''mp_uart_init'']
             else if \<not> NDEBUG cfg then [Call ''stdio_init_all''] else [])
            @ (if MICROPY_PY_THREAD cfg then [Call ''mp_thread_init''] else [])
            @ [Call ''rtc_init'', Call ''rtc_set_datetime'', Call ''mp_hal_time_ns_set_from_rtc'',
               Call ''pico_get_unique_board_id''])
       (st\<lparr>first_soft_reset := True\<rparr>)"

text \<open>
  Lines 147 to 181, from the label \<^verbatim>\<open>soft_reset\<close>: the garbage collector and the
  runtime, then the subsystems. Only \<^verbatim>\<open>sensor_init\<close> has its result tested:

  \<^verbatim>\<open>
  if (sensor_init() != 0) {
      printf("sensor init failed!\n");
  }
  \<close>
\<close>

definition bring_up :: "config \<Rightarrow> cycle_env \<Rightarrow> state \<Rightarrow> state" where
  "bring_up cfg env st =
     (let st = emits ([Call ''mp_init_gc_stack'', Init Runtime, Call ''mp_obj_list_append'',
                       Init Readline, Init MachinePin, Init Rp2Pio, Init Rp2Dma, Init MachineI2s]
                      @ (if MICROPY_PY_BLUETOOTH cfg then [Init Bluetooth] else [])
                      @ (if MICROPY_PY_NETWORK cfg then [Init Network] else [])
                      @ [Init Pendsv, Init Usbdbg, Init FbAlloc, Init Framebuffer, Init PyFir]) st
      in if MICROPY_PY_SENSOR cfg then
           (let st = emit (InitRc Sensor (sensor_rc env)) st
            in if sensor_rc env \<noteq> 0 then emit (Printf ''sensor init failed!\<newline>'') st else st)
         else st)"

text \<open>
  Lines 183 to 196: mount the flash filesystem, creating a fresh one when the mount
  reports \<^verbatim>\<open>-MP_ENODEV\<close>; without a FAT filesystem over USB MSC, run the frozen
  \<^verbatim>\<open>_boot.py\<close> instead.
\<close>

definition mount_filesystem :: "config \<Rightarrow> cycle_env \<Rightarrow> state \<Rightarrow> state" where
  "mount_filesystem cfg env st =
     (if MICROPY_VFS_FAT cfg \<and> MICROPY_HW_USB_MSC cfg then
        (let st = emits [Call ''rp2_flash_type.make_new'',
                         CallRc ''mp_vfs_mount_and_chdir_protected'' (mount_rc env)] st
         in if mount_rc env = - MP_ENODEV cfg then
              (let st = emits [Call ''mp_fat_vfs_type.make_new'',
                               CallRc ''mp_init_filesystem'' (mkfs_rc env)] st
               in if mkfs_rc env = 0 then emit (Call ''mp_vfs_mount_and_chdir_protected'') st
                  else st)
            else st)
      else emit (Call ''pyexec_frozen_module'') st)"

text \<open>Lines 198 to 209: mark the disk, and start TinyUSB unless it is already running.\<close>

definition start_usb :: "cycle_env \<Rightarrow> state \<Rightarrow> state" where
  "start_usb env st =
     (let st = emits [Call ''file_ll_touch'', Query ''tusb_inited'' (tusb_inited env)] st
      in if \<not> tusb_inited env then
           emits [Call ''tusb_init'', IrqSetEnabled False, Call ''irq_get_vtable_handler'',
                  Call ''irq_remove_handler'', Call ''irq_set_exclusive_handler''] st
         else st)"

text \<open>
  Lines 211 to 218:

  \<^verbatim>\<open>
  bool interrupted = mp_exec_bootscript("boot.py", true, false);
  if (first_soft_reset && !interrupted && mp_vfs_import_stat("main.py")) {
      mp_exec_bootscript("main.py", true, false);
      goto soft_reset_exit;
  }
  \<close>

  The boolean returned tells whether the \<^verbatim>\<open>goto\<close> was taken. The \<^verbatim>\<open>&&\<close> is
  short-circuit, so \<^verbatim>\<open>mp_vfs_import_stat\<close> is only called when the first two operands
  are true.
\<close>

definition run_boot_scripts :: "cycle_env \<Rightarrow> state \<Rightarrow> bool \<times> state" where
  "run_boot_scripts env st =
     (let st = emit (ExecBootscript ''boot.py'') st;
          interrupted = boot_interrupted env
      in if first_soft_reset st \<and> \<not> interrupted then
           (let st = emit (CallRc ''mp_vfs_import_stat'' (main_stat env)) st
            in if main_stat env \<noteq> 0 then (True, emit (ExecBootscript ''main.py'') st)
               else (False, st))
         else (False, st))"

text \<open>
  Lines 220 to 241, the REPL loop:

  \<^verbatim>\<open>
  while (!usbdbg_script_ready()) {
      nlr_buf_t nlr;
      if (nlr_push(&nlr) == 0) {
          usbdbg_set_irq_enabled(true);
          if (pyexec_mode_kind == PYEXEC_MODE_RAW_REPL) {
              if (pyexec_raw_repl() != 0) { break; }
          } else {
              if (pyexec_friendly_repl() != 0) { break; }
          }
          nlr_pop();
      }
  }
  \<close>

  A round that returns non-zero leaves the loop; a round that returns zero pops the
  handler and goes back to the test; a round left by a non-local jump lands after the
  \<^verbatim>\<open>if\<close> and goes back to the test. When the rounds are used up the test finds a script
  ready.
\<close>

fun repl_loop :: "(bool \<times> repl_result) list \<Rightarrow> state \<Rightarrow> state" where
  "repl_loop [] st = emit (Query ''usbdbg_script_ready'' True) st"
| "repl_loop ((raw, res) # rounds) st =
     (let st = emits [Query ''usbdbg_script_ready'' False, Call ''nlr_push''] st;
          st = usbdbg_set_irq_enabled True st;
          st = emit (Repl raw) st
      in case res of
           ReplReturned rc \<Rightarrow>
             if rc \<noteq> 0 then st else repl_loop rounds (emit (Call ''nlr_pop'') st)
         | ReplRaised \<Rightarrow> repl_loop rounds st)"

text \<open>
  Lines 244 to 255, the guarded run of the script sent by the host:

  \<^verbatim>\<open>
  if (nlr_push(&nlr) == 0) {
      usbdbg_set_irq_enabled(true);
      pyexec_str(usbdbg_get_script(), true);
      usbdbg_set_irq_enabled(false);
      nlr_pop();
  } else {
      mp_obj_print_exception(&mp_plat_print, (mp_obj_t) nlr.ret_val);
  }
  \<close>
\<close>

definition host_script_guard :: "script_outcome \<Rightarrow> state \<Rightarrow> state" where
  "host_script_guard oc st =
     (let st = emit (Call ''nlr_push'') st;
          st = usbdbg_set_irq_enabled True st;
          st = emits [Call ''usbdbg_get_script'', PyexecStr] st
      in case oc of
           Faulted \<Rightarrow> emit PrintException st
         | _ \<Rightarrow> emit (Call ''nlr_pop'') (usbdbg_set_irq_enabled False st))"

text \<open>
  Lines 257 to 265, the wait for the debugger command in flight:

  \<^verbatim>\<open>
  if (usbdbg_is_busy() && nlr_push(&nlr) == 0) {
      usbdbg_set_irq_enabled(true);
      usbdbg_wait_for_command(1000);
      usbdbg_set_irq_enabled(false);
      nlr_pop();
  }
  \<close>
\<close>

definition host_wait_guard :: "bool \<Rightarrow> wait_outcome \<Rightarrow> state \<Rightarrow> state" where
  "host_wait_guard b w st =
     (let st = emit (Query ''usbdbg_is_busy'' b) st
      in if b then
           (let st = emit (Call ''nlr_push'') st;
                st = usbdbg_set_irq_enabled True st;
                st = emit (UsbdbgWaitForCommand 1000) st
            in case w of
                 WaitReturned \<Rightarrow> emit (Call ''nlr_pop'') (usbdbg_set_irq_enabled False st)
               | WaitRaised \<Rightarrow> st)
         else st)"

text \<open>Lines 243 to 266: both guards, under \<^verbatim>\<open>if (usbdbg_script_ready())\<close>.\<close>

definition run_host_script :: "cycle_env \<Rightarrow> state \<Rightarrow> state" where
  "run_host_script env st =
     (let st = emit (Query ''usbdbg_script_ready'' (script_ready env)) st
      in if script_ready env then
           host_wait_guard (busy env) (wait_result env) (host_script_guard (script_result env) st)
         else st)"

text \<open>
  Lines 268 to 286, from the label \<^verbatim>\<open>soft_reset_exit\<close>: the deinit calls, then
  \<^verbatim>\<open>first_soft_reset = false;\<close>. The \<^verbatim>\<open>goto soft_reset;\<close> that follows is the
  recursion of \<open>soft_reset_loop\<close> below.
\<close>

definition soft_reset_exit :: "config \<Rightarrow> state \<Rightarrow> state" where
  "soft_reset_exit cfg st =
     (let st = emits ([MpPrintf ''MPY: soft reboot\<newline>'']
                      @ (if MICROPY_PY_AUDIO cfg then [Deinit Audio] else [])
                      @ (if MICROPY_PY_BLUETOOTH cfg then [Deinit Bluetooth] else [])
                      @ (if MICROPY_PY_NETWORK cfg then [Deinit Network] else [])
                      @ [Deinit Rp2Pio, Deinit Rp2Dma, Deinit MachinePwm, Deinit MachinePin,
                         Call ''gc_sweep_all'', Deinit Runtime]) st
      in st\<lparr>first_soft_reset := False\<rparr>)"

text \<open>
  Lines 211 to 266 together: after \<^verbatim>\<open>main.py\<close> the \<^verbatim>\<open>goto\<close> skips the REPL and the
  host script.
\<close>

definition run_session :: "cycle_env \<Rightarrow> state \<Rightarrow> state" where
  "run_session env st =
     (let (exit_now, st) = run_boot_scripts env st
      in if exit_now then st else run_host_script env (repl_loop (repl_rounds env) st))"

text \<open>One pass from the label \<^verbatim>\<open>soft_reset\<close> to the \<^verbatim>\<open>goto soft_reset\<close>.\<close>

definition soft_reset_cycle :: "config \<Rightarrow> cycle_env \<Rightarrow> state \<Rightarrow> state" where
  "soft_reset_cycle cfg env st =
     soft_reset_exit cfg
       (run_session env (start_usb env (mount_filesystem cfg env (bring_up cfg env st))))"

text \<open>
  \<open>main\<close> and \<^verbatim>\<open>__fatal_error\<close> have loops without an exit, so they are run for a
  given number of rounds of their loop: \<open>Running st\<close> says that after these rounds the
  function is at the head of its loop again, in the state \<open>st\<close>, and \<open>Returned v st\<close>
  that it has returned \<open>v\<close> in the state \<open>st\<close>.
\<close>

datatype 'a progress = Returned 'a state | Running state

text \<open>
  \<open>main\<close>: the boot code, then the cycle again and again, the \<open>n\<close>-th cycle with the
  environment \<open>envs n\<close>. One round is one pass from the label \<^verbatim>\<open>soft_reset\<close> to the
  \<^verbatim>\<open>goto soft_reset;\<close> of line 286. There is no \<^verbatim>\<open>return\<close> inside the loop, and
  the \<^verbatim>\<open>return 0;\<close> of line 287 comes after the unconditional \<^verbatim>\<open>goto\<close>, so no
  equation yields \<open>Returned\<close>.
\<close>

fun soft_reset_loop ::
  "nat \<Rightarrow> config \<Rightarrow> (nat \<Rightarrow> cycle_env) \<Rightarrow> nat \<Rightarrow> state \<Rightarrow> int progress" where
  "soft_reset_loop 0 cfg envs n st = Running st"
| "soft_reset_loop (Suc k) cfg envs n st =
     soft_reset_loop k cfg envs (Suc n) (soft_reset_cycle cfg (envs n) st)"

definition main :: "nat \<Rightarrow> config \<Rightarrow> (nat \<Rightarrow> cycle_env) \<Rightarrow> int progress" where
  "main k cfg envs = soft_reset_loop k cfg envs 0 (boot cfg power_on)"

text \<open>The state after the cycles of a finite list of environments: a prefix of a run.\<close>

fun run_cycles :: "config \<Rightarrow> cycle_env list \<Rightarrow> state \<Rightarrow> state" where
  "run_cycles cfg [] st = st"
| "run_cycles cfg (env # envs) st = run_cycles cfg envs (soft_reset_cycle cfg env st)"

section \<open>The fatal handler\<close>

text \<open>
  \<^verbatim>\<open>
  void __fatal_error() {
      gpio_init(OMV_LED_PIN);
      gpio_set_dir(OMV_LED_PIN, GPIO_OUT);
      while (true) {
          gpio_put(OMV_LED_PIN, 1);
          sleep_ms(100);
          gpio_put(OMV_LED_PIN, 0);
          sleep_ms(100);
      }
  }
  \<close>

  \<open>fatal_error\<close> is \<^verbatim>\<open>__fatal_error\<close> (an Isabelle name cannot start with an
  underscore). \<open>fatal_setup\<close> is the two calls before the loop, \<open>fatal_blink\<close> the loop
  body, and one round of \<open>fatal_loop\<close> is one pass through the body of
  \<^verbatim>\<open>while (true)\<close>, whose condition never fails.
\<close>

definition fatal_setup :: "config \<Rightarrow> state \<Rightarrow> state" where
  "fatal_setup cfg st =
     emits [GpioInit (OMV_LED_PIN cfg), GpioSetDir (OMV_LED_PIN cfg) GPIO_OUT] st"

definition fatal_blink :: "config \<Rightarrow> state \<Rightarrow> state" where
  "fatal_blink cfg st =
     emits [GpioPut (OMV_LED_PIN cfg) True, SleepMs 100,
            GpioPut (OMV_LED_PIN cfg) False, SleepMs 100] st"

fun fatal_loop :: "nat \<Rightarrow> config \<Rightarrow> state \<Rightarrow> unit progress" where
  "fatal_loop 0 cfg st = Running st"
| "fatal_loop (Suc k) cfg st = fatal_loop k cfg (fatal_blink cfg st)"

definition fatal_error :: "nat \<Rightarrow> config \<Rightarrow> state \<Rightarrow> unit progress" where
  "fatal_error k cfg st = fatal_loop k cfg (fatal_setup cfg st)"

section \<open>Observations on logs, and the specification's wording\<close>

text \<open>
  How often a boot script of a given name has been run so far, and how often
  \<^verbatim>\<open>main.py\<close> has.
\<close>

definition script_runs :: "string \<Rightarrow> state \<Rightarrow> nat" where
  "script_runs name st = count_list (log st) (ExecBootscript name)"

definition main_runs :: "state \<Rightarrow> nat" where
  "main_runs st = script_runs ''main.py'' st"

text \<open>
  The calls made by one cycle, and by the teardown alone: what the function added to
  the log.
\<close>

definition cycle_events :: "config \<Rightarrow> cycle_env \<Rightarrow> state \<Rightarrow> event list" where
  "cycle_events cfg env st = drop (length (log st)) (log (soft_reset_cycle cfg env st))"

definition teardown_events :: "config \<Rightarrow> state \<Rightarrow> event list" where
  "teardown_events cfg st = drop (length (log st)) (log (soft_reset_exit cfg st))"

text \<open>
  The subsystems whose init succeeded, in the order of the init calls (an init without a
  status cannot report a failure; \<^verbatim>\<open>sensor_init\<close> succeeds when it returns 0), and the
  subsystems whose deinit was called, in the order of the calls.
\<close>

fun succeeded_init :: "event \<Rightarrow> subsystem list" where
  "succeeded_init (Init s) = [s]"
| "succeeded_init (InitRc s rc) = (if rc = 0 then [s] else [])"
| "succeeded_init _ = []"

fun deinit_call :: "event \<Rightarrow> subsystem list" where
  "deinit_call (Deinit s) = [s]"
| "deinit_call _ = []"


definition succeeded_inits :: "event list \<Rightarrow> subsystem list" where
  "succeeded_inits evs = concat (map succeeded_init evs)"

definition deinit_calls :: "event list \<Rightarrow> subsystem list" where
  "deinit_calls evs = concat (map deinit_call evs)"


text \<open>
  \<open>follows ps evs\<close>: the log \<open>evs\<close> has events satisfying \<open>ps\<close>, one after the other in
  this order, other events allowed in between. \<open>spec_host_script_steps\<close> is the order
  of steps the specification gives for a host script: disable the interrupt, run the
  script, enable the interrupt again, wait for idle with some timeout.
\<close>

fun follows :: "('a \<Rightarrow> bool) list \<Rightarrow> 'a list \<Rightarrow> bool" where
  "follows [] evs = True"
| "follows (p # ps) [] = False"
| "follows (p # ps) (e # evs) = (if p e then follows ps evs else follows (p # ps) evs)"

fun is_wait :: "event \<Rightarrow> bool" where
  "is_wait (UsbdbgWaitForCommand t) = True"
| "is_wait _ = False"

definition spec_host_script_steps :: "(event \<Rightarrow> bool) list" where
  "spec_host_script_steps =
     [(=) (UsbdbgSetIrqEnabled False), (=) PyexecStr, (=) (UsbdbgSetIrqEnabled True), is_wait]"

text \<open>
  In a log, every \<^verbatim>\<open>mp_deinit\<close> (the last call of the teardown) that is not the last
  event is directly followed by \<^verbatim>\<open>mp_init_gc_stack\<close> (the first call after the label
  \<^verbatim>\<open>soft_reset\<close>).
\<close>

fun reinit_after_teardown :: "event list \<Rightarrow> bool" where
  "reinit_after_teardown [] = True"
| "reinit_after_teardown [e] = True"
| "reinit_after_teardown (e # e' # es) =
     ((e = Deinit Runtime \<longrightarrow> e' = Call ''mp_init_gc_stack'') \<and> reinit_after_teardown (e' # es))"

text \<open>Putting events in front of the log; used to show that no function reads its log.\<close>

definition prepend :: "event list \<Rightarrow> state \<Rightarrow> state" where
  "prepend l st = st\<lparr>log := l @ log st\<rparr>"

subsection \<open>Sample inputs\<close>

text \<open>
  A configuration with the sensor and the FAT filesystem, and a cycle in which every
  init succeeds, \<^verbatim>\<open>main.py\<close> does not exist, a host script is ready at once, runs to
  completion and leaves a command in flight.
\<close>

definition example_config :: config where
  "example_config = \<lparr>MICROPY_HW_ENABLE_UART_REPL = False, NDEBUG = True,
     MICROPY_PY_THREAD = False, MICROPY_PY_BLUETOOTH = False, MICROPY_PY_NETWORK = False,
     MICROPY_PY_SENSOR = True, MICROPY_PY_AUDIO = False, MICROPY_VFS_FAT = True,
     MICROPY_HW_USB_MSC = True, MP_ENODEV = 19, OMV_LED_PIN = 25\<rparr>"

definition example_env :: cycle_env where
  "example_env = \<lparr>sensor_rc = 0, mount_rc = 0, mkfs_rc = 0, tusb_inited = False,
     boot_interrupted = False, main_stat = 0, repl_rounds = [], script_ready = True,
     script_result = Completed, busy = True, wait_result = WaitReturned\<rparr>"

fun example_envs :: "nat \<Rightarrow> cycle_env" where
  "example_envs k = example_env"

section \<open>Properties of the entropy source\<close>

lemma top_bit: "(r AND 0x80 \<noteq> 0) = bit (r :: 8 word) 7"
proof -
  have "(push_bit 7 1 :: 8 word) = 0x80" by simp
  then show ?thesis using bit_iff_and_push_bit_not_eq_0 [of r 7] by simp
qed

lemma ucast_shl1: "(ucast (push_bit 1 (ucast (r :: 8 word) :: 32 word)) :: 8 word) = push_bit 1 r"
  apply (rule bit_word_eqI)
  apply (simp only: bit_ucast_iff bit_push_bit_iff)
  apply auto
  done

lemma mix_spec: "rosc_mix r (of_bool b) = spec_step r b"
proof -
  have a: "ucast (POLY) = (0xD5 :: 8 word)" by (simp add: POLY_def)
  have b: "(ucast (of_bool b :: 32 word) :: 8 word) = of_bool b" by (cases b) simp_all
  show ?thesis
    unfolding rosc_mix_def spec_step_def top_bit
    by (simp only: unsigned_xor_eq unsigned_or_eq a b ucast_shl1 if_distrib [of ucast] unsigned_0)
qed

lemma spec_step_bits: "bit (spec_step r b) n = (n < 8 \<and> ((if n = 0 then b else bit r (n - 1)) \<noteq> (bit r 7 \<and> bit (0xD5 :: 8 word) n)))"
  unfolding spec_step_def
  apply (simp only: bit_xor_iff bit_or_iff bit_push_bit_iff)
  apply (cases "bit r 7"; cases b; cases "n = 0")
  apply (auto simp add: bit_simps dest: bit_imp_le_length)
  done

lemma inj_step:
  assumes "spec_step r b = spec_step r' b"
  shows "r = r'"
proof -
  have e: "bit (spec_step r b) n = bit (spec_step r' b) n" for n
    using assms by simp
  have top: "bit r 7 = bit r' 7"
    using e [of 0] by (auto simp add: spec_step_bits)
  show ?thesis
  proof (rule bit_word_eqI)
    fix n
    assume "n < LENGTH(8)"
    then have n8: "n < 8" by simp
    show "bit r n = bit r' n"
    proof (cases "n = 7")
      case True
      then show ?thesis using top by simp
    next
      case False
      then have "Suc n < 8" using n8 by simp
      then show ?thesis using e [of "Suc n"] top by (auto simp add: spec_step_bits)
    qed
  qed
qed

lemma inj_foldl: "foldl spec_step r bs = foldl spec_step r' bs \<Longrightarrow> r = r'"
  by (induction bs arbitrary: r r') (auto dest: inj_step)

lemma rosc_loop_funpow: "rosc_loop i c st = (rosc_body ^^ (c - i)) st"
proof (induction i c st rule: rosc_loop.induct)
  case (1 i c st)
  show ?case
  proof (cases "i < c")
    case True
    then have c: "c - i = Suc (c - Suc i)" by simp
    from 1 True show ?thesis
      unfolding c by (subst rosc_loop.simps) (simp add: funpow_swap1)
  next
    case False
    then show ?thesis by (subst rosc_loop.simps) simp
  qed
qed

lemma rosc_body_simps:
  "reads (rosc_body st) = Suc (reads st)"
  "randombit (rosc_body st) = randombit st"
  "trace (rosc_body st) = trace st @ [ReadRandomBit, DelayUsFast 1]"
  "static_r (rosc_body st) = rosc_mix (static_r st) (randombit st (reads st))"
  by (simp_all add: rosc_body_def rosc_sample_def mp_hal_delay_us_fast_def)

lemma funpow_reads: "reads ((rosc_body ^^ n) st) = reads st + n"
  by (induction n) (simp_all add: rosc_body_simps)

lemma funpow_randombit: "randombit ((rosc_body ^^ n) st) = randombit st"
  by (induction n) (simp_all add: rosc_body_simps)

lemma concat_replicate_snoc: "concat (replicate n xs) @ xs = xs @ concat (replicate n xs)"
  by (induction n) simp_all

lemma funpow_trace:
  "trace ((rosc_body ^^ n) st) = trace st @ concat (replicate n [ReadRandomBit, DelayUsFast 1])"
proof (induction n)
  case 0
  show ?case by simp
next
  case (Suc n)
  with concat_replicate_snoc [of n "[ReadRandomBit, DelayUsFast 1]"]
  show ?case by (simp add: rosc_body_simps)
qed

lemma funpow_acc:
  "randombit st = (\<lambda>k. of_bool (b k)) \<Longrightarrow>
   static_r ((rosc_body ^^ n) st) = foldl spec_step (static_r st) (map b [reads st ..< reads st + n])"
  by (induction n) (simp_all add: rosc_body_simps funpow_reads funpow_randombit mix_spec)

lemma rosc_loop_add: "rosc_loop 0 n (rosc_loop 0 m st) = rosc_loop 0 (m + n) st"
proof -
  have "(rosc_body ^^ (n + m)) st = (rosc_body ^^ n) ((rosc_body ^^ m) st)"
    by (simp add: funpow_add)
  then show ?thesis
    by (simp only: rosc_loop_funpow diff_zero add.commute [of m n])
qed

lemma inj_next_byte_spec: "next_byte_spec r bs = next_byte_spec r' bs \<Longrightarrow> r = r'"
  unfolding next_byte_spec_def by (rule inj_foldl)

lemma rosc_random_u8_acc: "static_r (snd (rosc_random_u8 n st)) = fst (rosc_random_u8 n st)"
  by (simp add: rosc_random_u8_def Let_def)

text \<open>
  C5. For every number of cycles \<open>n\<close> and every sequence of sampled bits, the byte
  returned by \<open>rosc_random_u8\<close> is the result of iterating the step
  \<open>r \<mapsto> ((r << 1) | b) XOR (0xD5 if the old top bit of r was set, else 0)\<close> once per
  sample, starting from the value the accumulator had on entry; every sample is followed
  by one call of the fixed delay \<open>mp_hal_delay_us_fast(1)\<close>, so consecutive samples are
  separated by exactly one such delay.
\<close>

theorem rosc_random_u8_iterates_step:
  "fst (rosc_random_u8 n (st\<lparr>randombit := \<lambda>k. of_bool (b k)\<rparr>))
     = next_byte_spec (static_r st) (map b [reads st ..< reads st + n])
   \<and> trace (snd (rosc_random_u8 n st))
     = trace st @ concat (replicate n [ReadRandomBit, DelayUsFast 1])"
  by (simp add: rosc_random_u8_def Let_def rosc_loop_funpow funpow_trace
      funpow_acc [of _ b] next_byte_spec_def)

text \<open>
  C6 as stated says that no accumulator state survives from one call to the next. The
  accumulator is declared \<open>static\<close>, so it does: from power-on, with an oscillator that
  reads 1 at every sample, the first one-cycle call returns 1 and the second one-cycle
  call, which samples the same single bit 1, returns 3.
\<close>

theorem rosc_accumulator_persists_counterexample:
  "fst (rosc_random_u8 1 (rosc_power_on stuck_at_one)) = 1
   \<and> fst (rosc_random_u8 1 (snd (rosc_random_u8 1 (rosc_power_on stuck_at_one)))) = 3"
  by (simp add: rosc_random_u8_def Let_def rosc_loop_funpow rosc_body_def rosc_sample_def
      mp_hal_delay_us_fast_def rosc_power_on_def rosc_mix_def POLY_def)

text \<open>
  C6 amended. The accumulator persists across calls: a call starts from the byte the
  previous call left behind, so a call of \<open>m\<close> cycles followed by a call of \<open>n\<close> cycles
  ends in the same state and returns the same byte as one call of \<open>m + n\<close> cycles. The
  returned byte is determined by the number of cycles, the sampled bits and the entry
  value of the accumulator, and it does depend on that entry value: two calls with the
  same number of cycles and the same sampled bits return the same byte exactly when they
  start from the same accumulator value.
\<close>

theorem rosc_accumulator_carried_over:
  "rosc_random_u8 n (snd (rosc_random_u8 m st)) = rosc_random_u8 (m + n) st
   \<and> ((fst (rosc_random_u8 n (st\<lparr>static_r := a, randombit := \<lambda>k. of_bool (b k)\<rparr>))
        = fst (rosc_random_u8 n (st\<lparr>static_r := a', randombit := \<lambda>k. of_bool (b k)\<rparr>)))
       = (a = a'))"
proof -
  have carried: "rosc_random_u8 n (snd (rosc_random_u8 m st)) = rosc_random_u8 (m + n) st"
    by (simp add: rosc_random_u8_def Let_def rosc_loop_add)
  have same: "(fst (rosc_random_u8 n (st\<lparr>static_r := a, randombit := \<lambda>k. of_bool (b k)\<rparr>))
        = fst (rosc_random_u8 n (st\<lparr>static_r := a', randombit := \<lambda>k. of_bool (b k)\<rparr>)))
       = (a = a')"
    by (auto simp add: rosc_random_u8_def Let_def rosc_loop_funpow funpow_acc [of _ b]
        dest: inj_foldl)
  from carried same show ?thesis by (rule conjI)
qed

text \<open>
  C10. With \<open>cycles = 0\<close> the loop body never runs: nothing is sampled, no delay is
  made, the state is unchanged and the value returned is the accumulator as it stands,
  which is 0 on the first call after power-on and otherwise the byte returned by the
  previous call.
\<close>

theorem rosc_random_u8_zero_cycles:
  "rosc_random_u8 0 st = (static_r st, st)
   \<and> fst (rosc_random_u8 0 (rosc_power_on osc)) = 0
   \<and> fst (rosc_random_u8 0 (snd (rosc_random_u8 n st))) = fst (rosc_random_u8 n st)"
  by (simp add: rosc_random_u8_def Let_def rosc_loop_funpow rosc_power_on_def)


section \<open>Properties of the lifecycle\<close>

subsection \<open>What each step does to the state\<close>

lemma emit_simps:
  "log (emit e st) = log st @ [e]"
  "first_soft_reset (emit e st) = first_soft_reset st"
  "usbdbg_irq_enabled (emit e st) = usbdbg_irq_enabled st"
  by (simp_all add: emit_def)

lemma emits_simps:
  "log (emits es st) = log st @ es"
  "first_soft_reset (emits es st) = first_soft_reset st"
  "usbdbg_irq_enabled (emits es st) = usbdbg_irq_enabled st"
  by (simp_all add: emits_def)

lemma set_irq_simps:
  "log (usbdbg_set_irq_enabled en st) = log st @ [UsbdbgSetIrqEnabled en]"
  "first_soft_reset (usbdbg_set_irq_enabled en st) = first_soft_reset st"
  "usbdbg_irq_enabled (usbdbg_set_irq_enabled en st) = en"
  by (simp_all add: usbdbg_set_irq_enabled_def emit_def)

lemmas step_simps = emit_simps emits_simps set_irq_simps

lemma bring_up_script_runs: "script_runs name (bring_up cfg env st) = script_runs name st"
  by (simp add: script_runs_def bring_up_def Let_def step_simps)

lemma bring_up_first: "first_soft_reset (bring_up cfg env st) = first_soft_reset st"
  by (simp add: bring_up_def Let_def step_simps)

lemma mount_script_runs: "script_runs name (mount_filesystem cfg env st) = script_runs name st"
  by (simp add: script_runs_def mount_filesystem_def Let_def step_simps)

lemma mount_first: "first_soft_reset (mount_filesystem cfg env st) = first_soft_reset st"
  by (simp add: mount_filesystem_def Let_def step_simps)

lemma start_usb_script_runs: "script_runs name (start_usb env st) = script_runs name st"
  by (simp add: script_runs_def start_usb_def Let_def step_simps)

lemma start_usb_first: "first_soft_reset (start_usb env st) = first_soft_reset st"
  by (simp add: start_usb_def Let_def step_simps)

lemma boot_scripts_script_runs:
  "script_runs name (snd (run_boot_scripts env st)) =
     script_runs name st + (if name = ''boot.py'' then 1 else 0)
       + (if name = ''main.py'' \<and> first_soft_reset st \<and> \<not> boot_interrupted env
             \<and> main_stat env \<noteq> 0 then 1 else 0)"
  by (auto simp add: script_runs_def run_boot_scripts_def Let_def step_simps)

lemma repl_loop_script_runs: "script_runs name (repl_loop rounds st) = script_runs name st"
proof (induction rounds st rule: repl_loop.induct)
  case (1 st)
  show ?case by (simp add: script_runs_def step_simps)
next
  case (2 raw res rounds st)
  then show ?case
    by (cases res) (simp_all add: script_runs_def Let_def step_simps)
qed

lemma host_script_guard_script_runs:
  "script_runs name (host_script_guard oc st) = script_runs name st"
  by (cases oc) (simp_all add: script_runs_def host_script_guard_def Let_def step_simps)

lemma host_wait_guard_script_runs:
  "script_runs name (host_wait_guard b w st) = script_runs name st"
  by (cases w) (simp_all add: script_runs_def host_wait_guard_def Let_def step_simps)

lemma run_host_script_script_runs:
  "script_runs name (run_host_script env st) = script_runs name st"
  by (simp add: run_host_script_def Let_def host_script_guard_script_runs
      host_wait_guard_script_runs)
     (simp add: script_runs_def step_simps)

lemma soft_reset_exit_script_runs:
  "script_runs name (soft_reset_exit cfg st) = script_runs name st"
  by (simp add: script_runs_def soft_reset_exit_def Let_def step_simps)

lemma soft_reset_exit_first: "first_soft_reset (soft_reset_exit cfg st) = False"
  by (simp add: soft_reset_exit_def Let_def)

lemma run_session_script_runs:
  "script_runs name (run_session env st) =
     script_runs name st + (if name = ''boot.py'' then 1 else 0)
       + (if name = ''main.py'' \<and> first_soft_reset st \<and> \<not> boot_interrupted env
             \<and> main_stat env \<noteq> 0 then 1 else 0)"
proof -
  have "script_runs name (run_session env st) = script_runs name (snd (run_boot_scripts env st))"
    by (simp add: run_session_def Let_def split_beta run_host_script_script_runs
        repl_loop_script_runs)
  then show ?thesis by (simp only: boot_scripts_script_runs)
qed

lemma cycle_script_runs:
  "script_runs name (soft_reset_cycle cfg env st) =
     script_runs name st + (if name = ''boot.py'' then 1 else 0)
       + (if name = ''main.py'' \<and> first_soft_reset st \<and> \<not> boot_interrupted env
             \<and> main_stat env \<noteq> 0 then 1 else 0)"
  unfolding soft_reset_cycle_def soft_reset_exit_script_runs run_session_script_runs
    start_usb_script_runs mount_script_runs bring_up_script_runs
    start_usb_first mount_first bring_up_first ..

lemma cycle_main_runs:
  "main_runs (soft_reset_cycle cfg env st) =
     main_runs st + (if first_soft_reset st \<and> \<not> boot_interrupted env \<and> main_stat env \<noteq> 0 then 1 else 0)"
  by (simp add: main_runs_def cycle_script_runs)

lemma cycle_first: "first_soft_reset (soft_reset_cycle cfg env st) = False"
  by (simp add: soft_reset_cycle_def soft_reset_exit_first)

lemma run_cycles_after_reset:
  "\<not> first_soft_reset st \<Longrightarrow> main_runs (run_cycles cfg envs st) = main_runs st"
  by (induction envs arbitrary: st) (simp_all add: cycle_main_runs cycle_first)

lemma boot_main_runs: "main_runs (boot cfg power_on) = 0"
  by (simp add: main_runs_def script_runs_def boot_def power_on_def step_simps)

lemma boot_first: "first_soft_reset (boot cfg st)"
  by (simp add: boot_def step_simps)

subsection \<open>No step reads the log\<close>

lemma prepend_simps:
  "log (prepend l st) = l @ log st"
  "first_soft_reset (prepend l st) = first_soft_reset st"
  "usbdbg_irq_enabled (prepend l st) = usbdbg_irq_enabled st"
  by (simp_all add: prepend_def)

lemma prepend_first_update:
  "(prepend l st)\<lparr>first_soft_reset := b\<rparr> = prepend l (st\<lparr>first_soft_reset := b\<rparr>)"
  by (simp add: prepend_def)

lemma emit_prepend: "emit e (prepend l st) = prepend l (emit e st)"
  by (simp add: emit_def prepend_def)

lemma emits_prepend: "emits es (prepend l st) = prepend l (emits es st)"
  by (simp add: emits_def prepend_def)

lemma set_irq_prepend:
  "usbdbg_set_irq_enabled en (prepend l st) = prepend l (usbdbg_set_irq_enabled en st)"
  by (simp add: usbdbg_set_irq_enabled_def emit_def prepend_def)

lemmas push_prepend = emit_prepend emits_prepend set_irq_prepend prepend_simps

lemma bring_up_prepend: "bring_up cfg env (prepend l st) = prepend l (bring_up cfg env st)"
  by (simp add: bring_up_def Let_def push_prepend)

lemma mount_prepend:
  "mount_filesystem cfg env (prepend l st) = prepend l (mount_filesystem cfg env st)"
  by (simp add: mount_filesystem_def Let_def push_prepend)

lemma start_usb_prepend: "start_usb env (prepend l st) = prepend l (start_usb env st)"
  by (simp add: start_usb_def Let_def push_prepend)

lemma boot_scripts_prepend:
  "run_boot_scripts env (prepend l st) =
     (fst (run_boot_scripts env st), prepend l (snd (run_boot_scripts env st)))"
  by (simp add: run_boot_scripts_def Let_def push_prepend)

lemma repl_loop_prepend: "repl_loop rounds (prepend l st) = prepend l (repl_loop rounds st)"
proof (induction rounds st rule: repl_loop.induct)
  case (1 st)
  show ?case by (simp add: push_prepend)
next
  case (2 raw res rounds st)
  then show ?case
    by (cases res) (simp_all add: Let_def push_prepend)
qed

lemma host_script_guard_prepend:
  "host_script_guard oc (prepend l st) = prepend l (host_script_guard oc st)"
  by (cases oc) (simp_all add: host_script_guard_def Let_def push_prepend)

lemma host_wait_guard_prepend:
  "host_wait_guard b w (prepend l st) = prepend l (host_wait_guard b w st)"
  by (cases w) (simp_all add: host_wait_guard_def Let_def push_prepend)

lemma run_host_script_prepend:
  "run_host_script env (prepend l st) = prepend l (run_host_script env st)"
  by (simp add: run_host_script_def Let_def push_prepend host_script_guard_prepend
      host_wait_guard_prepend)

lemma run_session_prepend: "run_session env (prepend l st) = prepend l (run_session env st)"
  by (simp add: run_session_def Let_def split_beta boot_scripts_prepend repl_loop_prepend
      run_host_script_prepend)

lemma soft_reset_exit_prepend:
  "soft_reset_exit cfg (prepend l st) = prepend l (soft_reset_exit cfg st)"
  by (simp add: soft_reset_exit_def Let_def push_prepend prepend_first_update)

lemma after_bring_up_prepend:
  "soft_reset_exit cfg (run_session env (start_usb env (mount_filesystem cfg env (prepend l st))))
     = prepend l (soft_reset_exit cfg (run_session env (start_usb env (mount_filesystem cfg env st))))"
  by (simp only: mount_prepend start_usb_prepend run_session_prepend soft_reset_exit_prepend)

lemma cycle_prepend:
  "soft_reset_cycle cfg env (prepend l st) = prepend l (soft_reset_cycle cfg env st)"
  by (simp only: soft_reset_cycle_def bring_up_prepend after_bring_up_prepend)

lemma prepend_clear: "prepend (log st) (st\<lparr>log := []\<rparr>) = st"
  by (simp add: prepend_def)

lemma cycle_log_split:
  "log (soft_reset_cycle cfg env st) = log st @ log (soft_reset_cycle cfg env (st\<lparr>log := []\<rparr>))"
proof -
  have "soft_reset_cycle cfg env (prepend (log st) (st\<lparr>log := []\<rparr>))
          = prepend (log st) (soft_reset_cycle cfg env (st\<lparr>log := []\<rparr>))"
    by (rule cycle_prepend)
  then show ?thesis by (simp add: prepend_clear prepend_simps)
qed

lemma log_split:
  assumes "\<And>l s. f (prepend l s) = prepend l (f s)"
  shows "log (f st) = log st @ log (f (st\<lparr>log := []\<rparr>))"
proof -
  have "f (prepend (log st) (st\<lparr>log := []\<rparr>)) = prepend (log st) (f (st\<lparr>log := []\<rparr>))"
    by (rule assms)
  then have "f st = prepend (log st) (f (st\<lparr>log := []\<rparr>))"
    by (simp only: prepend_clear)
  then show ?thesis by (simp add: prepend_simps)
qed

lemmas cycle_defs = soft_reset_cycle_def run_session_def run_host_script_def
  host_script_guard_def host_wait_guard_def soft_reset_exit_def run_boot_scripts_def
  start_usb_def mount_filesystem_def bring_up_def boot_def power_on_def Let_def

subsection \<open>The main script\<close>

text \<open>
  C1. \<^verbatim>\<open>main.py\<close> is run at most once over the lifetime of the program: in every
  prefix of a run it has been run at most once, and as often as in the first cycle
  alone; a cycle that starts with \<open>first_soft_reset\<close> false (every cycle after a soft
  reset, since each cycle ends with the flag false) does not run it; a cycle whose
  \<^verbatim>\<open>boot.py\<close> run reported an interruption does not run it; and when that happens in
  the first cycle it is never run.
\<close>

theorem main_script_runs_at_most_once:
  "main_runs (run_cycles cfg envs (boot cfg power_on)) \<le> 1
   \<and> main_runs (run_cycles cfg envs (boot cfg power_on))
       = main_runs (run_cycles cfg (take 1 envs) (boot cfg power_on))
   \<and> (\<not> first_soft_reset st \<longrightarrow> main_runs (soft_reset_cycle cfg env st) = main_runs st)
   \<and> first_soft_reset (soft_reset_cycle cfg env st) = False
   \<and> (boot_interrupted env \<longrightarrow> main_runs (soft_reset_cycle cfg env st) = main_runs st)
   \<and> (envs \<noteq> [] \<and> boot_interrupted (hd envs)
        \<longrightarrow> main_runs (run_cycles cfg envs (boot cfg power_on)) = 0)"
proof (cases envs)
  case Nil
  then show ?thesis by (simp add: boot_main_runs cycle_main_runs cycle_first)
next
  case (Cons e es)
  then show ?thesis
    by (simp add: run_cycles_after_reset cycle_first cycle_main_runs boot_main_runs boot_first)
qed

theorem main_script_runs_at_most_once_witness:
  "\<not> first_soft_reset (power_on\<lparr>first_soft_reset := False\<rparr>)
   \<and> main_runs (soft_reset_cycle example_config (example_env\<lparr>main_stat := 1\<rparr>)
                   (power_on\<lparr>first_soft_reset := False\<rparr>))
       = main_runs (power_on\<lparr>first_soft_reset := False\<rparr>)
   \<and> [example_env\<lparr>boot_interrupted := True, main_stat := 1\<rparr>, example_env\<lparr>main_stat := 1\<rparr>] \<noteq> []
   \<and> boot_interrupted (hd [example_env\<lparr>boot_interrupted := True, main_stat := 1\<rparr>,
                             example_env\<lparr>main_stat := 1\<rparr>])
   \<and> main_runs (run_cycles example_config
         [example_env\<lparr>boot_interrupted := True, main_stat := 1\<rparr>, example_env\<lparr>main_stat := 1\<rparr>]
         (boot example_config power_on)) = 0"
  using main_script_runs_at_most_once [of example_config
      "[example_env\<lparr>boot_interrupted := True, main_stat := 1\<rparr>, example_env\<lparr>main_stat := 1\<rparr>]"
      "power_on\<lparr>first_soft_reset := False\<rparr>" "example_env\<lparr>main_stat := 1\<rparr>"]
  by simp

subsection \<open>The host script and the debugger interrupt\<close>

text \<open>
  C2 as stated says that the interrupt enable state after the guarded run equals the
  state before it on every exit path, the disable step being performed also when the
  script faults. On the fault path the code only prints the exception: entered with the
  interrupt disabled, the guard returns with the interrupt enabled and no disable call
  in its log, and a whole first cycle whose host script faults ends with the interrupt
  enabled. On the normal path the guard always leaves the interrupt disabled, also when
  it is entered with the interrupt enabled, as it is after a round of the REPL loop.
\<close>

theorem host_script_irq_bracket_counterexample:
  "usbdbg_irq_enabled power_on = False
   \<and> usbdbg_irq_enabled (host_script_guard Faulted power_on) = True
   \<and> UsbdbgSetIrqEnabled False \<notin> set (log (host_script_guard Faulted power_on))
   \<and> usbdbg_irq_enabled (boot example_config power_on) = False
   \<and> usbdbg_irq_enabled (soft_reset_cycle example_config
         (example_env\<lparr>script_result := Faulted, busy := False\<rparr>)
         (boot example_config power_on)) = True
   \<and> usbdbg_irq_enabled (repl_loop [(False, ReplRaised)] power_on) = True
   \<and> usbdbg_irq_enabled
        (host_script_guard Completed (repl_loop [(False, ReplRaised)] power_on)) = False"
  by (simp add: cycle_defs example_config_def example_env_def step_simps)

text \<open>
  C2 amended. For every host script whose guarded run returns to the orchestrator
  (normal completion or early exit), the enable/disable bracket is complete: the
  interrupt is enabled, the script is fetched and run, the interrupt is disabled and the
  recovery point is popped, in this order; after the run the interrupt is disabled,
  whatever its state was before.
\<close>

theorem host_script_irq_bracket:
  "oc \<noteq> Faulted \<Longrightarrow>
     log (host_script_guard oc st) =
       log st @ [Call ''nlr_push'', UsbdbgSetIrqEnabled True, Call ''usbdbg_get_script'',
                 PyexecStr, UsbdbgSetIrqEnabled False, Call ''nlr_pop'']
     \<and> usbdbg_irq_enabled (host_script_guard oc st) = False"
  by (cases oc) (simp_all add: host_script_guard_def Let_def step_simps)

theorem host_script_irq_bracket_witness:
  "EarlyExit \<noteq> Faulted
   \<and> log (host_script_guard EarlyExit power_on) =
       [Call ''nlr_push'', UsbdbgSetIrqEnabled True, Call ''usbdbg_get_script'',
        PyexecStr, UsbdbgSetIrqEnabled False, Call ''nlr_pop'']
   \<and> usbdbg_irq_enabled (host_script_guard EarlyExit power_on) = False"
  using host_script_irq_bracket [of EarlyExit power_on] by (simp add: power_on_def)

text \<open>
  C3 as stated gives the order: disable the interrupt, run the script, enable the
  interrupt again, wait for idle. The code enables the interrupt before the script and
  disables it after, and waits only when the debugger reports a command in flight: in
  the log of the sample cycle the steps of the specification do not occur in that order,
  and with \<open>busy\<close> false there is no wait at all.
\<close>

theorem host_script_order_counterexample:
  "log (run_host_script example_env power_on) =
     [Query ''usbdbg_script_ready'' True, Call ''nlr_push'', UsbdbgSetIrqEnabled True,
      Call ''usbdbg_get_script'', PyexecStr, UsbdbgSetIrqEnabled False, Call ''nlr_pop'',
      Query ''usbdbg_is_busy'' True, Call ''nlr_push'', UsbdbgSetIrqEnabled True,
      UsbdbgWaitForCommand 1000, UsbdbgSetIrqEnabled False, Call ''nlr_pop'']
   \<and> \<not> follows spec_host_script_steps (log (run_host_script example_env power_on))
   \<and> \<not> list_ex is_wait (log (run_host_script (example_env\<lparr>busy := False\<rparr>) power_on))"
  by (simp add: run_host_script_def host_script_guard_def host_wait_guard_def Let_def
      power_on_def example_env_def step_simps spec_host_script_steps_def)

text \<open>
  C3 amended. When a host script is ready and its run and the wait return, the
  orchestrator enables the debugger interrupt, hands the buffered script to the guarded
  execution, disables the interrupt, and then asks whether the debugger is busy; only if
  it is, the orchestrator enables the interrupt again, waits for the command in flight
  with the timeout 1000, and disables the interrupt.
\<close>

theorem host_script_order:
  "script_ready env \<Longrightarrow> script_result env \<noteq> Faulted \<Longrightarrow> wait_result env = WaitReturned \<Longrightarrow>
     log (run_host_script env st) =
       log st @ [Query ''usbdbg_script_ready'' True, Call ''nlr_push'', UsbdbgSetIrqEnabled True,
                 Call ''usbdbg_get_script'', PyexecStr, UsbdbgSetIrqEnabled False,
                 Call ''nlr_pop'', Query ''usbdbg_is_busy'' (busy env)]
              @ (if busy env
                 then [Call ''nlr_push'', UsbdbgSetIrqEnabled True, UsbdbgWaitForCommand 1000,
                       UsbdbgSetIrqEnabled False, Call ''nlr_pop'']
                 else [])"
  by (cases "script_result env")
     (simp_all add: run_host_script_def host_script_guard_def host_wait_guard_def Let_def
        step_simps)

theorem host_script_order_witness:
  "script_ready example_env \<and> script_result example_env \<noteq> Faulted
   \<and> wait_result example_env = WaitReturned
   \<and> log (run_host_script example_env power_on) =
       [Query ''usbdbg_script_ready'' True, Call ''nlr_push'', UsbdbgSetIrqEnabled True,
        Call ''usbdbg_get_script'', PyexecStr, UsbdbgSetIrqEnabled False, Call ''nlr_pop'',
        Query ''usbdbg_is_busy'' True, Call ''nlr_push'', UsbdbgSetIrqEnabled True,
        UsbdbgWaitForCommand 1000, UsbdbgSetIrqEnabled False, Call ''nlr_pop'']"
  using host_script_order [of example_env power_on]
  by (simp add: example_env_def power_on_def)

subsection \<open>Teardown\<close>

lemma deinit_calls_append: "deinit_calls (xs @ ys) = deinit_calls xs @ deinit_calls ys"
  by (simp add: deinit_calls_def)

lemma bring_up_deinits: "deinit_calls (log (bring_up cfg env st)) = deinit_calls (log st)"
  by (simp add: deinit_calls_def bring_up_def Let_def step_simps)

lemma mount_deinits: "deinit_calls (log (mount_filesystem cfg env st)) = deinit_calls (log st)"
  by (simp add: deinit_calls_def mount_filesystem_def Let_def step_simps)

lemma start_usb_deinits: "deinit_calls (log (start_usb env st)) = deinit_calls (log st)"
  by (simp add: deinit_calls_def start_usb_def Let_def step_simps)

lemma boot_scripts_deinits:
  "deinit_calls (log (snd (run_boot_scripts env st))) = deinit_calls (log st)"
  by (simp add: deinit_calls_def run_boot_scripts_def Let_def step_simps)

lemma repl_loop_deinits: "deinit_calls (log (repl_loop rounds st)) = deinit_calls (log st)"
proof (induction rounds st rule: repl_loop.induct)
  case (1 st)
  show ?case by (simp add: deinit_calls_def step_simps)
next
  case (2 raw res rounds st)
  then show ?case
    by (cases res) (simp_all add: deinit_calls_def Let_def step_simps)
qed

lemma host_script_guard_deinits:
  "deinit_calls (log (host_script_guard oc st)) = deinit_calls (log st)"
  by (cases oc) (simp_all add: deinit_calls_def host_script_guard_def Let_def step_simps)

lemma host_wait_guard_deinits:
  "deinit_calls (log (host_wait_guard b w st)) = deinit_calls (log st)"
  by (cases w) (simp_all add: deinit_calls_def host_wait_guard_def Let_def step_simps)

lemma run_host_script_deinits:
  "deinit_calls (log (run_host_script env st)) = deinit_calls (log st)"
  by (simp add: run_host_script_def Let_def host_script_guard_deinits host_wait_guard_deinits)
     (simp add: deinit_calls_def step_simps)

lemma run_session_deinits: "deinit_calls (log (run_session env st)) = deinit_calls (log st)"
  by (simp add: run_session_def Let_def split_beta run_host_script_deinits repl_loop_deinits
      boot_scripts_deinits)

lemma before_teardown_deinits:
  "deinit_calls (log (run_session env (start_usb env (mount_filesystem cfg env (bring_up cfg env st)))))
     = deinit_calls (log st)"
  by (simp only: run_session_deinits start_usb_deinits mount_deinits bring_up_deinits)

lemma teardown_log:
  "log (soft_reset_exit cfg st) =
     log st @ [MpPrintf ''MPY: soft reboot\<newline>'']
       @ (if MICROPY_PY_AUDIO cfg then [Deinit Audio] else [])
       @ (if MICROPY_PY_BLUETOOTH cfg then [Deinit Bluetooth] else [])
       @ (if MICROPY_PY_NETWORK cfg then [Deinit Network] else [])
       @ [Deinit Rp2Pio, Deinit Rp2Dma, Deinit MachinePwm, Deinit MachinePin,
          Call ''gc_sweep_all'', Deinit Runtime]"
  by (simp add: soft_reset_exit_def Let_def step_simps)

lemma teardown_deinits:
  "deinit_calls (log (soft_reset_exit cfg st)) =
     deinit_calls (log st)
       @ (if MICROPY_PY_AUDIO cfg then [Audio] else [])
       @ (if MICROPY_PY_BLUETOOTH cfg then [Bluetooth] else [])
       @ (if MICROPY_PY_NETWORK cfg then [Network] else [])
       @ [Rp2Pio, Rp2Dma, MachinePwm, MachinePin, Runtime]"
  by (simp add: teardown_log deinit_calls_def)

lemma cycle_events_log:
  "log (soft_reset_cycle cfg env st) = log st @ cycle_events cfg env st"
  using cycle_log_split [of cfg env st] by (simp add: cycle_events_def)

lemma teardown_events_log:
  "log (soft_reset_exit cfg st) = log st @ teardown_events cfg st"
  unfolding teardown_events_def by (simp add: teardown_log)

text \<open>
  C4 as stated says that the teardown calls deinit exactly for the subsystems whose init
  succeeded in the cycle, in the reverse of the init order. In the sample cycle twelve
  inits succeed, among them the pins, then PIO, then DMA; the teardown calls the deinit
  of PIO, DMA, PWM (which has no init), the pins and the runtime, in this order, and it
  calls the same five when \<^verbatim>\<open>sensor_init\<close> fails.
\<close>

theorem teardown_reverse_order_counterexample:
  "succeeded_inits (cycle_events example_config example_env (boot example_config power_on)) =
     [Runtime, Readline, MachinePin, Rp2Pio, Rp2Dma, MachineI2s, Pendsv, Usbdbg, FbAlloc,
      Framebuffer, PyFir, Sensor]
   \<and> deinit_calls (cycle_events example_config example_env (boot example_config power_on)) =
     [Rp2Pio, Rp2Dma, MachinePwm, MachinePin, Runtime]
   \<and> deinit_calls (cycle_events example_config example_env (boot example_config power_on))
     \<noteq> rev (succeeded_inits
              (cycle_events example_config example_env (boot example_config power_on)))
   \<and> deinit_calls (cycle_events example_config (example_env\<lparr>sensor_rc := 1\<rparr>)
                      (boot example_config power_on)) =
     [Rp2Pio, Rp2Dma, MachinePwm, MachinePin, Runtime]"
  by (simp add: cycle_events_def cycle_defs example_config_def example_env_def step_simps
      succeeded_inits_def deinit_calls_def)

lemma teardown_events_fixed:
  "teardown_events cfg st =
     [MpPrintf ''MPY: soft reboot\<newline>'']
       @ (if MICROPY_PY_AUDIO cfg then [Deinit Audio] else [])
       @ (if MICROPY_PY_BLUETOOTH cfg then [Deinit Bluetooth] else [])
       @ (if MICROPY_PY_NETWORK cfg then [Deinit Network] else [])
       @ [Deinit Rp2Pio, Deinit Rp2Dma, Deinit MachinePwm, Deinit MachinePin,
          Call ''gc_sweep_all'', Deinit Runtime]"
  by (simp add: teardown_events_def teardown_log)

lemma cycle_events_teardown:
  "\<exists>body. cycle_events cfg env st = body @ teardown_events cfg st' \<and> deinit_calls body = []"
proof -
  let ?s0 = "st\<lparr>log := []\<rparr>"
  let ?b = "run_session env (start_usb env (mount_filesystem cfg env (bring_up cfg env ?s0)))"
  have "cycle_events cfg env st = log (soft_reset_cycle cfg env ?s0)"
    using cycle_log_split [of cfg env st] by (simp add: cycle_events_def)
  also have "\<dots> = log ?b @ teardown_events cfg ?b"
    unfolding soft_reset_cycle_def by (rule teardown_events_log)
  also have "teardown_events cfg ?b = teardown_events cfg st'"
    by (simp only: teardown_events_fixed)
  finally have split: "cycle_events cfg env st = log ?b @ teardown_events cfg st'" .
  have "deinit_calls (log ?b) = deinit_calls (log ?s0)"
    by (rule before_teardown_deinits)
  then have "deinit_calls (log ?b) = []"
    by (simp add: deinit_calls_def)
  with split show ?thesis by blast
qed

text \<open>
  C4 amended. For every sequence of init outcomes in a cycle, the deinit calls of the
  cycle are a fixed list that depends on the build configuration only, not on which
  inits succeeded: audio, Bluetooth and network when they are compiled in, then PIO,
  DMA, PWM, the pins and the runtime, in this order, each exactly once; all of them are
  made by the teardown, which makes the same calls from whatever state it is entered:
  the reboot message, these deinit calls, with \<^verbatim>\<open>gc_sweep_all\<close> between the deinit
  of the pins and \<^verbatim>\<open>mp_deinit\<close>, which comes last. The teardown ends the cycle, and no
  deinit is called before it.
\<close>

theorem teardown_is_a_fixed_sequence:
  "deinit_calls (cycle_events cfg env st) =
       (if MICROPY_PY_AUDIO cfg then [Audio] else [])
       @ (if MICROPY_PY_BLUETOOTH cfg then [Bluetooth] else [])
       @ (if MICROPY_PY_NETWORK cfg then [Network] else [])
       @ [Rp2Pio, Rp2Dma, MachinePwm, MachinePin, Runtime]
   \<and> deinit_calls (teardown_events cfg st') = deinit_calls (cycle_events cfg env st)
   \<and> distinct (deinit_calls (cycle_events cfg env st))
   \<and> teardown_events cfg st' =
       [MpPrintf ''MPY: soft reboot\<newline>'']
       @ (if MICROPY_PY_AUDIO cfg then [Deinit Audio] else [])
       @ (if MICROPY_PY_BLUETOOTH cfg then [Deinit Bluetooth] else [])
       @ (if MICROPY_PY_NETWORK cfg then [Deinit Network] else [])
       @ [Deinit Rp2Pio, Deinit Rp2Dma, Deinit MachinePwm, Deinit MachinePin,
          Call ''gc_sweep_all'', Deinit Runtime]
   \<and> (\<exists>body. cycle_events cfg env st = body @ teardown_events cfg st'
          \<and> deinit_calls body = [])"
proof -
  let ?fixed = "(if MICROPY_PY_AUDIO cfg then [Audio] else [])
       @ (if MICROPY_PY_BLUETOOTH cfg then [Bluetooth] else [])
       @ (if MICROPY_PY_NETWORK cfg then [Network] else [])
       @ [Rp2Pio, Rp2Dma, MachinePwm, MachinePin, Runtime]"
  have "deinit_calls (log (soft_reset_cycle cfg env st)) = deinit_calls (log st) @ ?fixed"
    unfolding soft_reset_cycle_def teardown_deinits before_teardown_deinits ..
  then have a: "deinit_calls (cycle_events cfg env st) = ?fixed"
    by (simp only: cycle_events_log deinit_calls_append same_append_eq)
  have "deinit_calls (log (soft_reset_exit cfg st')) = deinit_calls (log st') @ ?fixed"
    by (rule teardown_deinits)
  then have b: "deinit_calls (teardown_events cfg st') = ?fixed"
    by (simp only: teardown_events_log deinit_calls_append same_append_eq)
  have c: "distinct ?fixed" by simp
  have b': "deinit_calls (teardown_events cfg st') = deinit_calls (cycle_events cfg env st)"
    using a b by simp
  have c': "distinct (deinit_calls (cycle_events cfg env st))"
    using a c by simp
  note d = teardown_events_fixed [of cfg st']
  note e = cycle_events_teardown [of cfg env st st']
  show ?thesis
    by (rule conjI [OF a conjI [OF b' conjI [OF c' conjI [OF d e]]]])
qed

subsection \<open>A failing init\<close>





















subsection \<open>The fatal handler\<close>

lemma fatal_blink_rounds:
  "(fatal_blink cfg ^^ k) st =
     st\<lparr>log := log st @ concat (replicate k [GpioPut (OMV_LED_PIN cfg) True, SleepMs 100,
                                             GpioPut (OMV_LED_PIN cfg) False, SleepMs 100])\<rparr>"
proof (induction k)
  case 0
  show ?case by simp
next
  case (Suc k)
  with concat_replicate_snoc [of k "[GpioPut (OMV_LED_PIN cfg) True, SleepMs 100,
                                   GpioPut (OMV_LED_PIN cfg) False, SleepMs 100]"]
  show ?case by (simp add: fatal_blink_def emits_def)
qed

lemma fatal_loop_rounds: "fatal_loop k cfg st = Running ((fatal_blink cfg ^^ k) st)"
  by (induction k arbitrary: st) (simp_all add: funpow_swap1)

text \<open>
  C8. \<^verbatim>\<open>__fatal_error\<close> never returns: after any number \<open>k\<close> of rounds of its loop it
  is still in the loop, and what it has done by then is to set up the LED pin as an
  output and, \<open>k\<close> times, switch the LED on, sleep 100 ms, switch it off, sleep 100 ms.
  It makes no other call and changes nothing else, so it never goes back into the
  lifecycle.
\<close>

theorem fatal_error_never_returns:
  "fatal_error k cfg st =
     Running (st\<lparr>log := log st
        @ [GpioInit (OMV_LED_PIN cfg), GpioSetDir (OMV_LED_PIN cfg) GPIO_OUT]
        @ concat (replicate k [GpioPut (OMV_LED_PIN cfg) True, SleepMs 100,
                               GpioPut (OMV_LED_PIN cfg) False, SleepMs 100])\<rparr>)"
  by (simp add: fatal_error_def fatal_loop_rounds fatal_blink_rounds fatal_setup_def emits_def)

subsection \<open>The soft-reset loop\<close>

lemma run_cycles_snoc:
  "run_cycles cfg (es @ [e]) st = soft_reset_cycle cfg e (run_cycles cfg es st)"
  by (induction es arbitrary: st) simp_all

lemma soft_reset_loop_rounds:
  "soft_reset_loop k cfg envs n st = Running (run_cycles cfg (map envs [n..<n + k]) st)"
proof (induction k arbitrary: n st)
  case 0
  show ?case by simp
next
  case (Suc k)
  have "[n..<n + Suc k] = n # [Suc n..<Suc n + k]"
    by (simp add: upt_rec)
  with Suc show ?case by simp
qed

lemma rat_no_teardown:
  "Deinit Runtime \<notin> set xs \<Longrightarrow> reinit_after_teardown (xs @ [e])"
  by (induction xs rule: reinit_after_teardown.induct) auto

lemma rat_append:
  "reinit_after_teardown xs \<Longrightarrow> reinit_after_teardown (y # ys) \<Longrightarrow>
   (xs \<noteq> [] \<Longrightarrow> last xs = Deinit Runtime \<Longrightarrow> y = Call ''mp_init_gc_stack'') \<Longrightarrow>
   reinit_after_teardown (xs @ y # ys)"
  by (induction xs rule: reinit_after_teardown.induct) auto

lemma deinit_in_calls: "Deinit s \<in> set evs \<Longrightarrow> s \<in> set (deinit_calls evs)"
  by (induction evs) (auto simp add: deinit_calls_def)

lemma bring_up_log_hd:
  "\<exists>evs. log (bring_up cfg env st) = log st @ Call ''mp_init_gc_stack'' # evs"
  by (simp add: bring_up_def Let_def step_simps)

lemma before_teardown_log:
  "\<exists>evs. log (run_session env (start_usb env (mount_filesystem cfg env (bring_up cfg env st))))
      = log st @ Call ''mp_init_gc_stack'' # evs \<and> (log st = [] \<longrightarrow> Deinit Runtime \<notin> set evs)"
proof -
  obtain evs where a: "log (bring_up cfg env st) = log st @ Call ''mp_init_gc_stack'' # evs"
    using bring_up_log_hd by blast
  let ?k = "\<lambda>s. run_session env (start_usb env (mount_filesystem cfg env s))"
  let ?rest = "log (?k ((bring_up cfg env st)\<lparr>log := []\<rparr>))"
  have "log (?k (bring_up cfg env st)) = log (bring_up cfg env st) @ ?rest"
    by (rule log_split) (simp only: mount_prepend start_usb_prepend run_session_prepend)
  then have b: "log (?k (bring_up cfg env st))
      = log st @ Call ''mp_init_gc_stack'' # (evs @ ?rest)"
    by (simp add: a)
  have c: "Deinit Runtime \<notin> set (evs @ ?rest)" if e: "log st = []"
  proof
    assume "Deinit Runtime \<in> set (evs @ ?rest)"
    then have "Deinit Runtime \<in> set (log (?k (bring_up cfg env st)))"
      by (simp add: b)
    then have "Runtime \<in> set (deinit_calls (log (?k (bring_up cfg env st))))"
      by (rule deinit_in_calls)
    then have "Runtime \<in> set (deinit_calls (log st))"
      by (simp only: before_teardown_deinits)
    then show False
      by (simp add: e deinit_calls_def)
  qed
  from b c show ?thesis by blast
qed

lemma cycle_events_shape:
  "\<exists>mid. cycle_events cfg env st = Call ''mp_init_gc_stack'' # mid @ [Deinit Runtime]
     \<and> Deinit Runtime \<notin> set mid"
proof -
  let ?s0 = "st\<lparr>log := []\<rparr>"
  let ?b = "run_session env (start_usb env (mount_filesystem cfg env (bring_up cfg env ?s0)))"
  obtain evs where a: "log ?b = Call ''mp_init_gc_stack'' # evs" and n: "Deinit Runtime \<notin> set evs"
    using before_teardown_log [of env cfg ?s0] by auto
  let ?mid = "evs @ [MpPrintf ''MPY: soft reboot\<newline>'']
       @ (if MICROPY_PY_AUDIO cfg then [Deinit Audio] else [])
       @ (if MICROPY_PY_BLUETOOTH cfg then [Deinit Bluetooth] else [])
       @ (if MICROPY_PY_NETWORK cfg then [Deinit Network] else [])
       @ [Deinit Rp2Pio, Deinit Rp2Dma, Deinit MachinePwm, Deinit MachinePin,
          Call ''gc_sweep_all'']"
  have "cycle_events cfg env st = log (soft_reset_cycle cfg env ?s0)"
    using cycle_log_split [of cfg env st] by (simp add: cycle_events_def)
  also have "\<dots> = Call ''mp_init_gc_stack'' # ?mid @ [Deinit Runtime]"
    by (simp add: soft_reset_cycle_def teardown_log a)
  finally have shape: "cycle_events cfg env st = Call ''mp_init_gc_stack'' # ?mid @ [Deinit Runtime]" .
  have "Deinit Runtime \<notin> set ?mid" using n by simp
  with shape show ?thesis by blast
qed

lemma cycle_keeps_reinit:
  assumes "reinit_after_teardown (log st)"
  shows "reinit_after_teardown (log (soft_reset_cycle cfg env st))"
proof -
  obtain mid where m: "cycle_events cfg env st = Call ''mp_init_gc_stack'' # mid @ [Deinit Runtime]"
    and n: "Deinit Runtime \<notin> set mid"
    using cycle_events_shape by blast
  have "Deinit Runtime \<notin> set (Call ''mp_init_gc_stack'' # mid)" using n by simp
  then have "reinit_after_teardown ((Call ''mp_init_gc_stack'' # mid) @ [Deinit Runtime])"
    by (rule rat_no_teardown)
  then have "reinit_after_teardown (log st @ Call ''mp_init_gc_stack'' # mid @ [Deinit Runtime])"
    using assms by (intro rat_append) simp_all
  then show ?thesis by (simp add: cycle_events_log m)
qed

lemma run_cycles_keeps_reinit:
  "reinit_after_teardown (log st) \<Longrightarrow> reinit_after_teardown (log (run_cycles cfg es st))"
  by (induction es arbitrary: st) (simp_all add: cycle_keeps_reinit)

lemma boot_reinit: "reinit_after_teardown (log (boot cfg power_on))"
  by (simp add: boot_def power_on_def step_simps)

lemma cycle_teardowns:
  "count_list (log (soft_reset_cycle cfg env st)) (Deinit Runtime)
     = Suc (count_list (log st) (Deinit Runtime))"
proof -
  obtain mid where m: "cycle_events cfg env st = Call ''mp_init_gc_stack'' # mid @ [Deinit Runtime]"
    and n: "Deinit Runtime \<notin> set mid"
    using cycle_events_shape by blast
  from n have "count_list mid (Deinit Runtime) = 0"
    by (simp add: count_list_0_iff)
  then show ?thesis by (simp add: cycle_events_log m)
qed

lemma run_cycles_teardowns:
  "count_list (log (run_cycles cfg es st)) (Deinit Runtime)
     = count_list (log st) (Deinit Runtime) + length es"
  by (induction es arbitrary: st) (simp_all add: cycle_teardowns)

lemma boot_teardowns: "count_list (log (boot cfg power_on)) (Deinit Runtime) = 0"
  by (simp add: boot_def power_on_def step_simps)

text \<open>
  C9. \<open>main\<close> never returns: after any number \<open>k\<close> of rounds it is at the label
  \<^verbatim>\<open>soft_reset\<close> again, still running, having gone through the \<open>k\<close> cycles of its
  environment; by then it has completed the teardown \<open>k\<close> times, and in its log each
  completed teardown but the last is directly followed by the first call of the next
  bring-up.
\<close>

theorem main_never_returns:
  "main k cfg envs = Running (run_cycles cfg (map envs [0..<k]) (boot cfg power_on))
   \<and> (\<exists>st. main k cfg envs = Running st
        \<and> count_list (log st) (Deinit Runtime) = k
        \<and> reinit_after_teardown (log st))"
proof -
  let ?st = "run_cycles cfg (map envs [0..<k]) (boot cfg power_on)"
  have a: "main k cfg envs = Running ?st"
    by (simp add: main_def soft_reset_loop_rounds)
  have b: "count_list (log ?st) (Deinit Runtime) = k"
    by (simp add: run_cycles_teardowns boot_teardowns)
  have c: "reinit_after_teardown (log ?st)"
    by (rule run_cycles_keeps_reinit) (rule boot_reinit)
  from a b c show ?thesis by blast
qed

theorem main_never_returns_witness:
  "main 2 example_config example_envs
     = Running (run_cycles example_config [example_env, example_env] (boot example_config power_on))
   \<and> reinit_after_teardown
        (log (run_cycles example_config [example_env, example_env] (boot example_config power_on)))
   \<and> Deinit Runtime
        \<in> set (butlast (log (run_cycles example_config [example_env, example_env]
                                (boot example_config power_on))))"
proof -
  have m: "map example_envs [0..<2] = [example_env, example_env]"
    by (simp add: upt_rec)
  from main_never_returns [of 2 example_config example_envs]
  have a: "main 2 example_config example_envs
     = Running (run_cycles example_config [example_env, example_env] (boot example_config power_on))
    \<and> reinit_after_teardown
        (log (run_cycles example_config [example_env, example_env] (boot example_config power_on)))"
    by (auto simp add: m)
  have b: "Deinit Runtime
        \<in> set (butlast (log (run_cycles example_config [example_env, example_env]
                                (boot example_config power_on))))"
    by (simp add: cycle_defs example_config_def example_env_def step_simps)
  from a b show ?thesis by blast
qed

end
